theory Spec2Isabelle
  imports Complex_Main "HOL-Library.Word" "HOL-Library.Multiset"
begin

section \<open>JavaScript values used by the page\<close>

text \<open>
  A JavaScript string is a sequence of UTF-16 code units. A \<^verbatim>\<open>number\<close> is a
  double. The stocks arrive through \<^verbatim>\<open>JSON.parse(JSON.stringify(stocks))\<close>, so every
  number stored in a stock is finite: it is held as the real number it denotes, and
  \<^verbatim>\<open><\<close> on two of them is the order of the reals. Array lengths and counts are
  natural numbers.
\<close>

type_synonym jschar = "16 word"
type_synonym jsstring = "jschar list"
type_synonym number = real

text \<open>
  The result of an addition is a double that need not be finite: \<^verbatim>\<open>+\<close> rounds to
  the nearest double and overflows to an infinity.
\<close>

datatype double = Finite real | Infinity | MinusInfinity | NaN

text \<open>An ASCII literal of the source as code units.\<close>

definition str :: "string \<Rightarrow> jsstring" where
  "str s = map of_char s"

text \<open>
  \<^verbatim>\<open>`${n}`\<close> for a non-negative integer \<open>n\<close> (an array length): its decimal
  digits, most significant first, \<^verbatim>\<open>"0"\<close> for zero.
\<close>

definition digit :: "nat \<Rightarrow> jschar" where
  "digit d = of_nat (48 + d)"

fun showNat :: "nat \<Rightarrow> jsstring" where
  "showNat n = (if n < 10 then [digit n] else showNat (n div 10) @ [digit (n mod 10)])"

declare showNat.simps [simp del]

text \<open>
  The arithmetic of doubles and their conversions to strings are built into the runtime
  and are parameters here, with nothing assumed of them: \<open>add\<close> is \<^verbatim>\<open>+\<close> on two
  numbers, \<open>toFixed4\<close> is \<^verbatim>\<open>toFixed(4)\<close>, and \<open>shortestDigits\<close> is the conversion
  of a number to a string (ECMAScript, Number::toString: the shortest digits that read
  back as the same double). One case of the conversion is computed: an integer below
  \<open>2\<^sup>5\<^sup>3\<close> in absolute value is a double and prints as its decimal digits.
\<close>

record Runtime =
  add :: "double \<Rightarrow> double \<Rightarrow> double"
  shortestDigits :: "number \<Rightarrow> jsstring"
  toFixed4 :: "double \<Rightarrow> jsstring"

definition numberToString :: "Runtime \<Rightarrow> number \<Rightarrow> jsstring" where
  "numberToString rt x =
     (if x = of_int \<lfloor>x\<rfloor> \<and> \<bar>x\<bar> < 2 ^ 53
      then (if x < 0 then str ''-'' @ showNat (nat \<lfloor>- x\<rfloor>) else showNat (nat \<lfloor>x\<rfloor>))
      else shortestDigits rt x)"

text \<open>
  A promise that has settled: \<open>Rejected\<close> when the computation threw or its promise
  rejected, \<open>Fulfilled v\<close> otherwise. Which error a rejection carries depends on the
  order in which promises settle and is not modelled.
\<close>

datatype 'a promise = Rejected | Fulfilled 'a

text \<open>
  \<^verbatim>\<open>await Promise.all(ps)\<close>: the values in the order of \<open>ps\<close>, whatever the order of
  completion; rejected as soon as one element is.
\<close>

fun Promise_all :: "'a promise list \<Rightarrow> 'a list promise" where
  "Promise_all [] = Fulfilled []"
| "Promise_all (p # ps) =
     (case p of
        Rejected \<Rightarrow> Rejected
      | Fulfilled v \<Rightarrow>
          (case Promise_all ps of
             Rejected \<Rightarrow> Rejected
           | Fulfilled vs \<Rightarrow> Fulfilled (v # vs)))"

text \<open>
  \<^verbatim>\<open>xs.sort(compareFn)\<close>. The sort is stable (ECMAScript 2019); for a comparator that
  orders by a key its result is the one of insertion from the right, where an element
  goes before the first element it does not compare greater than.
\<close>

fun insertBy :: "('a \<Rightarrow> 'a \<Rightarrow> int) \<Rightarrow> 'a \<Rightarrow> 'a list \<Rightarrow> 'a list" where
  "insertBy cmp x [] = [x]"
| "insertBy cmp x (y # ys) =
     (if cmp x y \<le> 0 then x # y # ys else y # insertBy cmp x ys)"

definition Array_sort :: "('a \<Rightarrow> 'a \<Rightarrow> int) \<Rightarrow> 'a list \<Rightarrow> 'a list" where
  "Array_sort cmp xs = foldr (insertBy cmp) xs []"

section \<open>The entity model (src/domain/stock/stock.ts)\<close>

text \<open>
  The accumulator of the main-holder fold starts as \<^verbatim>\<open>{ name: "", totalShares: 0 }\<close>,
  so its type has these two fields only. A \<open>Holder\<close> has them and two more: it is an
  extension of that record, and \<open>HolderAcc.truncate\<close> is the view of a holder at the
  accumulator's type.
\<close>

record HolderAcc =
  name :: jsstring
  totalShares :: number

record Holder = HolderAcc +
  ordinaryShares :: number
  preferredShares :: number

record StockState =
  price :: number
  priceToEarnings :: number
  holders :: "Holder list"

record StockEvent =
  date :: number
  amount :: number
  type :: jsstring

record StockHistory =
  period :: jsstring
  earningsPerShare :: number

record Stock =
  name :: jsstring
  business :: jsstring
  currentState :: StockState
  events :: "StockEvent list"
  history :: "StockHistory list"

section \<open>The page (src/pages/app.tsx)\<close>

text \<open>
  Modelled from the spec: the classes \<^verbatim>\<open>DividendConstancy\<close>, \<^verbatim>\<open>PriceToEarnings\<close>,
  \<^verbatim>\<open>ProfitConstancy5Years\<close> and \<^verbatim>\<open>ProfitConstancy10Years\<close> and the interface
  \<^verbatim>\<open>Insight\<close> are not among the sources. An insight is what the page uses of it:
  \<^verbatim>\<open>verify(stock)\<close>, which only reads the stock and yields a boolean, now or through
  a promise, or fails. The registry \<^verbatim>\<open>insights\<close> is a parameter of the functions below.
\<close>

record Insight =
  verify :: "Stock \<Rightarrow> bool promise"

record MappedStock =
  name :: jsstring
  business :: jsstring
  price :: number
  mainHolder :: jsstring
  totalDividendsLast5Years :: jsstring
  insightsScore :: jsstring
  positiveInsights :: nat

text \<open>\<^verbatim>\<open>stock.currentState.holders.reduce(..., { name: "", totalShares: 0 })\<close>\<close>

definition mainHolder :: "Stock \<Rightarrow> HolderAcc" where
  "mainHolder stock =
     foldl (\<lambda>acc holder.
              if totalShares acc < totalShares holder then HolderAcc.truncate holder
              else acc)
       \<lparr>HolderAcc.name = str '''', totalShares = 0\<rparr>
       (holders (currentState stock))"

text \<open>\<^verbatim>\<open>stock.events.reduce((acc, event) => acc + event.amount, 0)\<close>\<close>

definition totalDividendsLast5Years :: "Runtime \<Rightarrow> Stock \<Rightarrow> double" where
  "totalDividendsLast5Years rt stock =
     foldl (\<lambda>acc event. add rt acc (Finite (amount event))) (Finite 0) (events stock)"

text \<open>\<^verbatim>\<open>await Promise.all(insights.map((i) => i.verify(stock)))\<close>\<close>

definition verdicts :: "Insight list \<Rightarrow> Stock \<Rightarrow> bool list promise" where
  "verdicts insights stock = Promise_all (map (\<lambda>i. verify i stock) insights)"

text \<open>\<^verbatim>\<open>(await ...).filter((res) => res).length\<close>\<close>

definition positiveInsights :: "Insight list \<Rightarrow> Stock \<Rightarrow> nat promise" where
  "positiveInsights insights stock =
     (case verdicts insights stock of
        Rejected \<Rightarrow> Rejected
      | Fulfilled results \<Rightarrow> Fulfilled (length (filter (\<lambda>res. res) results)))"

text \<open>\<^verbatim>\<open>`${positiveInsights}/${insights.length}`\<close>\<close>

definition insightsScore :: "'i list \<Rightarrow> nat \<Rightarrow> jsstring" where
  "insightsScore insights positive = showNat positive @ str ''/'' @ showNat (length insights)"

text \<open>
  The class \<^verbatim>\<open>[^\w\s]\<close> of the regular expression: \<^verbatim>\<open>\w\<close> is
  \<^verbatim>\<open>[A-Za-z0-9_]\<close>, \<^verbatim>\<open>\s\<close> is the white space and the line terminators of
  ECMAScript. Without the \<^verbatim>\<open>u\<close> flag, \<^verbatim>\<open>i\<close> compares upper-cased code units and
  never takes a code unit from 128 on to one below 128, so it adds nothing to the class.
\<close>

definition isWordChar :: "jschar \<Rightarrow> bool" where
  "isWordChar c =
     ((97 \<le> c \<and> c \<le> 122) \<or> (65 \<le> c \<and> c \<le> 90) \<or> (48 \<le> c \<and> c \<le> 57) \<or> c = 95)"

definition isWhiteSpace :: "jschar \<Rightarrow> bool" where
  "isWhiteSpace c =
     ((9 \<le> c \<and> c \<le> 13) \<or> c = 32 \<or> c = 160 \<or> c = 5760 \<or> (8192 \<le> c \<and> c \<le> 8202) \<or>
      c = 8232 \<or> c = 8233 \<or> c = 8239 \<or> c = 8287 \<or> c = 12288 \<or> c = 65279)"

definition isSpecial :: "jschar \<Rightarrow> bool" where
  "isSpecial c = (\<not> (isWordChar c \<or> isWhiteSpace c))"

text \<open>\<^verbatim>\<open>name.replace(/[^\w\s]/gi, "")\<close>: every match is removed.\<close>

definition removeSpecial :: "jsstring \<Rightarrow> jsstring" where
  "removeSpecial s = filter (\<lambda>c. \<not> isSpecial c) s"

text \<open>The callback of \<^verbatim>\<open>data.map\<close>: one stock to its row, or a rejection.\<close>

definition mappedStock :: "Runtime \<Rightarrow> Insight list \<Rightarrow> Stock \<Rightarrow> MappedStock promise" where
  "mappedStock rt insights stock =
     (case positiveInsights insights stock of
        Rejected \<Rightarrow> Rejected
      | Fulfilled positive \<Rightarrow>
          Fulfilled
            \<lparr>MappedStock.name = removeSpecial (Stock.name stock),
             business = Stock.business stock,
             price = StockState.price (currentState stock),
             mainHolder =
               HolderAcc.name (mainHolder stock) @ str '' ('' @
               numberToString rt (totalShares (mainHolder stock)) @ str ''%)'',
             totalDividendsLast5Years = toFixed4 rt (totalDividendsLast5Years rt stock),
             insightsScore = insightsScore insights positive,
             positiveInsights = positive\<rparr>)"

text \<open>\<^verbatim>\<open>(a, b) => b.positiveInsights - a.positiveInsights\<close>\<close>

definition compareFn :: "MappedStock \<Rightarrow> MappedStock \<Rightarrow> int" where
  "compareFn a b = int (MappedStock.positiveInsights b) - int (MappedStock.positiveInsights a)"

text \<open>
  The component: its property \<open>data\<close> and its two state variables,
  \<^verbatim>\<open>useState<Stock | null>(null)\<close> and \<^verbatim>\<open>useState<MappedStock[]>([])\<close>.
\<close>

record App =
  data :: "Stock list"
  stock :: "Stock option"
  mappedData :: "MappedStock list"

definition initialApp :: "Stock list \<Rightarrow> App" where
  "initialApp d = \<lparr>data = d, stock = None, mappedData = []\<rparr>"

text \<open>
  The effect on \<open>data\<close> (an array is truthy, so the guard \<^verbatim>\<open>if (data)\<close> passes). The
  asynchronous function it starts has no handler: when a promise rejects,
  \<^verbatim>\<open>setMappedData\<close> is not reached and the state stays as it was.
\<close>

definition useEffect :: "Runtime \<Rightarrow> Insight list \<Rightarrow> App \<Rightarrow> App" where
  "useEffect rt insights app =
     (case Promise_all (map (mappedStock rt insights) (data app)) of
        Rejected \<Rightarrow> app
      | Fulfilled mapped \<Rightarrow> app\<lparr>mappedData := Array_sort compareFn mapped\<rparr>)"

text \<open>
  \<^verbatim>\<open>onRowClick\<close>: \<^verbatim>\<open>data.find((s) => s.name === stock.name)\<close>, and
  \<^verbatim>\<open>setStock\<close> when a stock was found.
\<close>

definition onRowClick :: "App \<Rightarrow> MappedStock \<Rightarrow> App" where
  "onRowClick app row =
     (case find (\<lambda>s. Stock.name s = MappedStock.name row) (data app) of
        None \<Rightarrow> app
      | Some s \<Rightarrow> app\<lparr>stock := Some s\<rparr>)"

section \<open>The pass on a store of objects\<close>

text \<open>
  The functions above take a stock as a value. Whether the pass writes to its inputs is
  a question about objects, so the pass is given a second time on a store: an object
  lives at an address, the property \<open>data\<close> is a reference to an array of references
  to stock objects, and a row array is an object that \<^verbatim>\<open>sort\<close> changes in place. A
  stock object holds all that is reachable from it (state, holders, events, history) as
  one value, so a write anywhere below a stock is a change of the object at the stock's
  address. \<open>nextAddr\<close> is the next address to hand out.
\<close>

type_synonym addr = nat

datatype object =
    StockObject Stock
  | StockArray "addr list"
  | MappedStockArray "MappedStock list"

record Store =
  objects :: "addr \<rightharpoonup> object"
  nextAddr :: addr

text \<open>A new array, as \<^verbatim>\<open>Promise.all\<close> returns one.\<close>

definition alloc :: "object \<Rightarrow> Store \<Rightarrow> addr \<times> Store" where
  "alloc ob st =
     (nextAddr st, st\<lparr>objects := (objects st)(nextAddr st \<mapsto> ob), nextAddr := Suc (nextAddr st)\<rparr>)"

text \<open>
  A call either throws or returns a value.
\<close>

datatype 'a completion = Threw | Returned 'a

text \<open>
  Modelled from the spec: the insight classes are not among the sources. On the store,
  \<^verbatim>\<open>i.verify(stock)\<close> receives the reference to the stock and may read and write any
  object; it throws, or returns a verdict or a promise of one, and leaves a store. What
  an insight does to the store is taken to happen at the call.
\<close>

record StoredInsight =
  verifyAt :: "addr \<Rightarrow> Store \<Rightarrow> bool promise completion \<times> Store"

text \<open>
  \<open>keeps st st'\<close>: every address handed out in \<open>st\<close> holds in \<open>st'\<close> what it held in
  \<open>st\<close>; new objects may have been added.
\<close>

definition keeps :: "Store \<Rightarrow> Store \<Rightarrow> bool" where
  "keeps st st' =
     (nextAddr st \<le> nextAddr st' \<and> (\<forall>a<nextAddr st. objects st' a = objects st a))"

text \<open>
  Modelled from the spec: an insight "only reads" the entity and its evaluation has "no
  side effects on the entity". An insight leaves the objects when, whatever the stock and
  the store, no object that existed at the call is changed by it.
\<close>

definition leavesObjects :: "StoredInsight \<Rightarrow> bool" where
  "leavesObjects i = (\<forall>a st. keeps st (snd (verifyAt i a st)))"

text \<open>
  An insight given as a function of the stock, as above, acts on the store by reading
  the stock at the reference and writing nothing; its failure is a rejected promise.
\<close>

definition storedInsight :: "Insight \<Rightarrow> StoredInsight" where
  "storedInsight i =
     \<lparr>verifyAt = (\<lambda>a st.
        (case objects st a of Some (StockObject s) \<Rightarrow> Returned (verify i s) | _ \<Rightarrow> Threw,
         st))\<rparr>"

text \<open>
  \<^verbatim>\<open>insights.map((i) => i.verify(stock))\<close>: the calls in the order of the registry;
  when a call throws, the later insights are not called and there is no array.
\<close>

fun verifyEach ::
  "StoredInsight list \<Rightarrow> addr \<Rightarrow> Store \<Rightarrow> bool promise list option \<times> Store" where
  "verifyEach [] a st = (Some [], st)"
| "verifyEach (i # is) a st =
     (case verifyAt i a st of
        (Threw, st1) \<Rightarrow> (None, st1)
      | (Returned p, st1) \<Rightarrow>
          (case verifyEach is a st1 of
             (None, st2) \<Rightarrow> (None, st2)
           | (Some ps, st2) \<Rightarrow> (Some (p # ps), st2)))"

text \<open>
  The callback of \<^verbatim>\<open>data.map\<close> runs up to its \<^verbatim>\<open>await\<close>: it reads the holders and
  the events of the stock, calls the insights, and is suspended with its variables. When
  the reference is not a stock or an insight throws, the callback throws: there is no
  suspended callback, and its promise is rejected.
\<close>

record Suspended =
  stockVar :: addr
  mainHolderVar :: HolderAcc
  totalVar :: double
  awaited :: "bool promise list"

definition startCallback ::
  "Runtime \<Rightarrow> StoredInsight list \<Rightarrow> addr \<Rightarrow> Store \<Rightarrow> Suspended option \<times> Store" where
  "startCallback rt insights a st =
     (case objects st a of
        Some (StockObject s) \<Rightarrow>
          (case verifyEach insights a st of
             (None, st') \<Rightarrow> (None, st')
           | (Some ps, st') \<Rightarrow>
               (Some \<lparr>stockVar = a, mainHolderVar = mainHolder s,
                      totalVar = totalDividendsLast5Years rt s, awaited = ps\<rparr>, st'))
      | _ \<Rightarrow> (None, st))"

text \<open>\<^verbatim>\<open>data.map(async (stock) => ...)\<close>: every callback is started, in the order of \<open>data\<close>.\<close>

fun startAll ::
  "Runtime \<Rightarrow> StoredInsight list \<Rightarrow> addr list \<Rightarrow> Store \<Rightarrow> Suspended option list \<times> Store" where
  "startAll rt insights [] st = ([], st)"
| "startAll rt insights (a # as) st =
     (case startCallback rt insights a st of
        (c, st1) \<Rightarrow> (case startAll rt insights as st1 of (cs, st2) \<Rightarrow> (c # cs, st2)))"

text \<open>
  The rest of the callback, after the \<^verbatim>\<open>await\<close>: it counts the positive verdicts and
  reads the name, the business and the price of the stock from the store as it is then.
\<close>

definition resumeCallback ::
  "Runtime \<Rightarrow> StoredInsight list \<Rightarrow> Store \<Rightarrow> Suspended option \<Rightarrow> MappedStock promise" where
  "resumeCallback rt insights st c =
     (case c of
        None \<Rightarrow> Rejected
      | Some v \<Rightarrow>
          (case Promise_all (awaited v) of
             Rejected \<Rightarrow> Rejected
           | Fulfilled results \<Rightarrow>
               (case objects st (stockVar v) of
                  Some (StockObject s) \<Rightarrow>
                    Fulfilled
                      \<lparr>MappedStock.name = removeSpecial (Stock.name s),
                       business = Stock.business s,
                       price = StockState.price (currentState s),
                       mainHolder =
                         HolderAcc.name (mainHolderVar v) @ str '' ('' @
                         numberToString rt (totalShares (mainHolderVar v)) @ str ''%)'',
                       totalDividendsLast5Years = toFixed4 rt (totalVar v),
                       insightsScore =
                         insightsScore insights (length (filter (\<lambda>res. res) results)),
                       positiveInsights = length (filter (\<lambda>res. res) results)\<rparr>
                | _ \<Rightarrow> Rejected)))"

text \<open>\<^verbatim>\<open>mappedData.sort(compareFn)\<close>: the array at the address is replaced by the sorted one.\<close>

definition sortAt :: "addr \<Rightarrow> Store \<Rightarrow> Store" where
  "sortAt a st =
     (case objects st a of
        Some (MappedStockArray rows) \<Rightarrow>
          st\<lparr>objects := (objects st)(a \<mapsto> MappedStockArray (Array_sort compareFn rows))\<rparr>
      | _ \<Rightarrow> st)"

text \<open>The component on the store: its property and its state variables are references.\<close>

record StoredApp =
  dataRef :: addr
  stockRef :: "addr option"
  mappedDataRef :: addr

text \<open>
  The effect: all callbacks are started, then resumed; when none is rejected,
  \<^verbatim>\<open>Promise.all\<close> gives a new array of the rows, which is sorted in place and stored by
  \<^verbatim>\<open>setMappedData\<close>. The arrays that \<^verbatim>\<open>map\<close> and \<^verbatim>\<open>filter\<close> return are never
  written after they are made and are not put in the store; a row is a value in its array.
  When \<open>data\<close> is not an array of stocks the effect throws and changes nothing.
\<close>

definition useEffectAt ::
  "Runtime \<Rightarrow> StoredInsight list \<Rightarrow> StoredApp \<Rightarrow> Store \<Rightarrow> StoredApp \<times> Store" where
  "useEffectAt rt insights app st =
     (case objects st (dataRef app) of
        Some (StockArray refs) \<Rightarrow>
          (case startAll rt insights refs st of
             (cs, st1) \<Rightarrow>
               (case Promise_all (map (resumeCallback rt insights st1) cs) of
                  Rejected \<Rightarrow> (app, st1)
                | Fulfilled rows \<Rightarrow>
                    (case alloc (MappedStockArray rows) st1 of
                       (a, st2) \<Rightarrow> (app\<lparr>mappedDataRef := a\<rparr>, sortAt a st2))))
      | _ \<Rightarrow> (app, st))"

section \<open>Example inputs\<close>

text \<open>
  Inputs for the examples. No example depends on what the two conversions of
  \<open>stubRuntime\<close> print, and its addition is used on small integers only, which doubles
  add exactly; \<open>priceAbove\<close> and \<open>failing\<close> stand for insight classes.
\<close>

definition stubRuntime :: Runtime where
  "stubRuntime =
     \<lparr>add = (\<lambda>x y. case x of
                      Finite a \<Rightarrow> (case y of Finite b \<Rightarrow> Finite (a + b) | _ \<Rightarrow> NaN)
                    | _ \<Rightarrow> NaN),
      shortestDigits = (\<lambda>x. str ''?''),
      toFixed4 = (\<lambda>x. str ''?'')\<rparr>"

definition holderOf :: "string \<Rightarrow> number \<Rightarrow> Holder" where
  "holderOf n t =
     \<lparr>HolderAcc.name = str n, totalShares = t, ordinaryShares = t, preferredShares = 0\<rparr>"

definition eventOf :: "number \<Rightarrow> number \<Rightarrow> string \<Rightarrow> StockEvent" where
  "eventOf d a t = \<lparr>date = d, amount = a, type = str t\<rparr>"

definition stockOf :: "string \<Rightarrow> number \<Rightarrow> Holder list \<Rightarrow> StockEvent list \<Rightarrow> Stock" where
  "stockOf n p hs es =
     \<lparr>Stock.name = str n, business = str ''Bank'',
      currentState = \<lparr>StockState.price = p, priceToEarnings = 8, holders = hs\<rparr>,
      events = es, history = []\<rparr>"

definition priceAbove :: "number \<Rightarrow> Insight" where
  "priceAbove t = \<lparr>verify = (\<lambda>s. Fulfilled (t < StockState.price (currentState s)))\<rparr>"

definition failing :: Insight where
  "failing = \<lparr>verify = (\<lambda>s. Rejected)\<rparr>"

text \<open>
  A store with two stocks, the array \<open>data\<close> and the empty array of the initial state;
  and an insight that writes: it overwrites the stock it is given.
\<close>

definition overwriting :: "Stock \<Rightarrow> StoredInsight" where
  "overwriting s =
     \<lparr>verifyAt = (\<lambda>a st.
        (Returned (Fulfilled True), st\<lparr>objects := (objects st)(a \<mapsto> StockObject s)\<rparr>))\<rparr>"

definition exampleStore :: Store where
  "exampleStore =
     \<lparr>objects =
        [0 \<mapsto> StockObject (stockOf ''ITUB4'' 30 [] []),
         1 \<mapsto> StockObject (stockOf ''VALE3'' 70 [] []),
         2 \<mapsto> StockArray [0, 1],
         3 \<mapsto> MappedStockArray []],
      nextAddr = 4\<rparr>"

definition exampleStoredApp :: StoredApp where
  "exampleStoredApp = \<lparr>dataRef = 2, stockRef = None, mappedDataRef = 3\<rparr>"

section \<open>Lemmas about the runtime functions and the pass\<close>

lemma Promise_all_Fulfilled_iff:
  "Promise_all ps = Fulfilled vs \<longleftrightarrow> ps = map Fulfilled vs"
proof (induction ps arbitrary: vs)
  case Nil
  show ?case by auto
next
  case (Cons p ps)
  show ?case
  proof (cases p)
    case Rejected
    then show ?thesis by auto
  next
    case (Fulfilled v)
    show ?thesis
    proof (cases "Promise_all ps")
      case Rejected
      with Cons.IH Fulfilled show ?thesis by (cases vs) auto
    next
      case inner: (Fulfilled ws)
      with Cons.IH Fulfilled show ?thesis by (cases vs) auto
    qed
  qed
qed

lemma Promise_all_Rejected_iff:
  "Promise_all ps = Rejected \<longleftrightarrow> Rejected \<in> set ps"
  by (induction ps) (auto split: promise.splits)

lemma foldl_add_amounts:
  "foldl (\<lambda>acc event. add rt acc (Finite (amount event))) a es =
   foldl (add rt) a (map (\<lambda>e. Finite (amount e)) es)"
  by (induction es arbitrary: a) simp_all

lemma foldl_add_exact:
  assumes "\<forall>k<length es.
      add rt (Finite (sum_list (map amount (take k es)))) (Finite (amount (es ! k))) =
      Finite (sum_list (map amount (take (Suc k) es)))"
  shows "foldl (\<lambda>acc event. add rt acc (Finite (amount event))) (Finite 0) es =
         Finite (sum_list (map amount es))"
  using assms
proof (induction es rule: rev_induct)
  case Nil
  show ?case by simp
next
  case (snoc x xs)
  have "\<forall>k<length xs.
      add rt (Finite (sum_list (map amount (take k xs)))) (Finite (amount (xs ! k))) =
      Finite (sum_list (map amount (take (Suc k) xs)))"
  proof (intro allI impI)
    fix k assume k: "k < length xs"
    have "add rt (Finite (sum_list (map amount (take k (xs @ [x])))))
            (Finite (amount ((xs @ [x]) ! k))) =
          Finite (sum_list (map amount (take (Suc k) (xs @ [x]))))"
      by (rule snoc.prems [rule_format]) (simp add: k less_SucI)
    with k show "add rt (Finite (sum_list (map amount (take k xs)))) (Finite (amount (xs ! k))) =
      Finite (sum_list (map amount (take (Suc k) xs)))"
      by (simp add: nth_append)
  qed
  then have IH: "foldl (\<lambda>acc event. add rt acc (Finite (amount event))) (Finite 0) xs =
         Finite (sum_list (map amount xs))"
    by (rule snoc.IH)
  have "add rt (Finite (sum_list (map amount (take (length xs) (xs @ [x])))))
            (Finite (amount ((xs @ [x]) ! length xs))) =
          Finite (sum_list (map amount (take (Suc (length xs)) (xs @ [x]))))"
    by (rule snoc.prems [rule_format]) simp
  then have "add rt (Finite (sum_list (map amount xs))) (Finite (amount x)) =
      Finite (sum_list (map amount (xs @ [x])))"
    by simp
  with IH show ?case by simp
qed

lemma insertBy_compareFn:
  "insertBy compareFn x ys = insort_key (\<lambda>m. - int (MappedStock.positiveInsights m)) x ys"
  by (induction ys) (simp_all add: compareFn_def)

lemma Array_sort_compareFn:
  "Array_sort compareFn xs = sort_key (\<lambda>m. - int (MappedStock.positiveInsights m)) xs"
proof -
  have "insertBy compareFn = insort_key (\<lambda>m. - int (MappedStock.positiveInsights m))"
    by (intro ext) (rule insertBy_compareFn)
  then show ?thesis by (simp add: Array_sort_def sort_key_def)
qed

lemma sorted_Array_sort:
  "sorted_wrt (\<lambda>a b. MappedStock.positiveInsights b \<le> MappedStock.positiveInsights a)
     (Array_sort compareFn xs)"
proof -
  have "sorted (map (\<lambda>m. - int (MappedStock.positiveInsights m)) (Array_sort compareFn xs))"
    by (simp add: Array_sort_compareFn)
  then show ?thesis by (simp add: sorted_map sorted_wrt_iff_nth_less)
qed

lemma stable_Array_sort:
  "filter (\<lambda>m. MappedStock.positiveInsights m = k) (Array_sort compareFn xs) =
   filter (\<lambda>m. MappedStock.positiveInsights m = k) xs"
proof -
  have "filter (\<lambda>m. - int (MappedStock.positiveInsights m) = - int k) (Array_sort compareFn xs) =
        filter (\<lambda>m. - int (MappedStock.positiveInsights m) = - int k) xs"
    unfolding Array_sort_compareFn by (rule sort_key_stable)
  then show ?thesis by simp
qed

lemma mset_Array_sort: "mset (Array_sort compareFn xs) = mset xs"
  by (simp add: Array_sort_compareFn)

lemma totalShares_truncate [simp]: "totalShares (HolderAcc.truncate h) = totalShares h"
  by (simp add: HolderAcc.truncate_def)

lemma name_truncate [simp]: "HolderAcc.name (HolderAcc.truncate h) = HolderAcc.name h"
  by (simp add: HolderAcc.truncate_def)

lemma foldl_pick_cases:
  fixes acc :: HolderAcc and hs :: "Holder list"
  defines "r \<equiv> foldl (\<lambda>acc holder.
              if totalShares acc < totalShares holder then HolderAcc.truncate holder
              else acc) acc hs"
  shows "(r = acc \<and> (\<forall>h\<in>set hs. totalShares h \<le> totalShares acc)) \<or>
         (\<exists>k<length hs. r = HolderAcc.truncate (hs ! k) \<and>
            totalShares acc < totalShares (hs ! k) \<and>
            (\<forall>j<k. totalShares (hs ! j) < totalShares (hs ! k)) \<and>
            (\<forall>h\<in>set hs. totalShares h \<le> totalShares (hs ! k)))"
  unfolding r_def
proof (induction hs rule: rev_induct)
  case Nil
  show ?case by simp
next
  case (snoc x xs)
  let ?step = "\<lambda>acc holder.
              if totalShares acc < totalShares holder then HolderAcc.truncate holder
              else acc"
  let ?r = "foldl ?step acc xs"
  from snoc.IH consider
    (kept) "?r = acc" "\<forall>h\<in>set xs. totalShares h \<le> totalShares acc"
  | (picked) k where "k < length xs" "?r = HolderAcc.truncate (xs ! k)"
      "totalShares acc < totalShares (xs ! k)"
      "\<forall>j<k. totalShares (xs ! j) < totalShares (xs ! k)"
      "\<forall>h\<in>set xs. totalShares h \<le> totalShares (xs ! k)"
    by blast
  then show ?case
  proof cases
    case kept
    show ?thesis
    proof (cases "totalShares acc < totalShares x")
      case True
      have "\<forall>j<length xs. totalShares ((xs @ [x]) ! j) < totalShares x"
        using kept(2) True by (auto simp: nth_append dest!: nth_mem)
      moreover have "\<forall>h\<in>set (xs @ [x]). totalShares h \<le> totalShares x"
        using kept(2) True by auto
      ultimately have "length xs < length (xs @ [x]) \<and>
          foldl ?step acc (xs @ [x]) = HolderAcc.truncate ((xs @ [x]) ! length xs) \<and>
          totalShares acc < totalShares ((xs @ [x]) ! length xs) \<and>
          (\<forall>j<length xs. totalShares ((xs @ [x]) ! j) < totalShares ((xs @ [x]) ! length xs)) \<and>
          (\<forall>h\<in>set (xs @ [x]). totalShares h \<le> totalShares ((xs @ [x]) ! length xs))"
        using kept(1) True by simp
      then show ?thesis by blast
    next
      case False
      with kept show ?thesis by auto
    qed
  next
    case picked
    show ?thesis
    proof (cases "totalShares (xs ! k) < totalShares x")
      case True
      have "\<forall>j<length xs. totalShares ((xs @ [x]) ! j) < totalShares x"
        using picked(5) True by (auto simp: nth_append dest!: nth_mem)
      moreover have "\<forall>h\<in>set (xs @ [x]). totalShares h \<le> totalShares x"
        using picked(5) True by auto
      ultimately have "length xs < length (xs @ [x]) \<and>
          foldl ?step acc (xs @ [x]) = HolderAcc.truncate ((xs @ [x]) ! length xs) \<and>
          totalShares acc < totalShares ((xs @ [x]) ! length xs) \<and>
          (\<forall>j<length xs. totalShares ((xs @ [x]) ! j) < totalShares ((xs @ [x]) ! length xs)) \<and>
          (\<forall>h\<in>set (xs @ [x]). totalShares h \<le> totalShares ((xs @ [x]) ! length xs))"
        using picked(2,3) True by simp
      then show ?thesis by blast
    next
      case False
      have "k < length (xs @ [x]) \<and>
          foldl ?step acc (xs @ [x]) = HolderAcc.truncate ((xs @ [x]) ! k) \<and>
          totalShares acc < totalShares ((xs @ [x]) ! k) \<and>
          (\<forall>j<k. totalShares ((xs @ [x]) ! j) < totalShares ((xs @ [x]) ! k)) \<and>
          (\<forall>h\<in>set (xs @ [x]). totalShares h \<le> totalShares ((xs @ [x]) ! k))"
        using picked False by (auto simp: nth_append)
      then show ?thesis by blast
    qed
  qed
qed

lemma verdicts_Fulfilled_iff:
  "verdicts insights s = Fulfilled vs \<longleftrightarrow> map (\<lambda>i. verify i s) insights = map Fulfilled vs"
  by (simp add: verdicts_def Promise_all_Fulfilled_iff)

lemma verdicts_Rejected_iff:
  "verdicts insights s = Rejected \<longleftrightarrow> (\<exists>i\<in>set insights. verify i s = Rejected)"
proof -
  have "Rejected \<in> set (map (\<lambda>i. verify i s) insights) \<longleftrightarrow>
        (\<exists>i\<in>set insights. verify i s = Rejected)"
    by (induction insights) auto
  then show ?thesis by (simp add: verdicts_def Promise_all_Rejected_iff)
qed

lemma mappedStock_Rejected_iff:
  "mappedStock rt insights s = Rejected \<longleftrightarrow> (\<exists>i\<in>set insights. verify i s = Rejected)"
proof (cases "verdicts insights s")
  case Rejected
  then show ?thesis
    using verdicts_Rejected_iff [of insights s]
    by (simp add: mappedStock_def positiveInsights_def)
next
  case (Fulfilled vs)
  then show ?thesis
    using verdicts_Rejected_iff [of insights s]
    by (simp add: mappedStock_def positiveInsights_def)
qed

lemma mappedStock_FulfilledD:
  assumes "mappedStock rt insights s = Fulfilled m"
  obtains vs where "verdicts insights s = Fulfilled vs"
    and "m = \<lparr>MappedStock.name = removeSpecial (Stock.name s),
             business = Stock.business s,
             price = StockState.price (currentState s),
             mainHolder =
               HolderAcc.name (mainHolder s) @ str '' ('' @
               numberToString rt (totalShares (mainHolder s)) @ str ''%)'',
             totalDividendsLast5Years = toFixed4 rt (totalDividendsLast5Years rt s),
             insightsScore = insightsScore insights (length (filter (\<lambda>res. res) vs)),
             positiveInsights = length (filter (\<lambda>res. res) vs)\<rparr>"
  using assms
  by (auto simp: mappedStock_def positiveInsights_def split: promise.splits)

lemma mapped_pass_Rejected_iff:
  "Promise_all (map (mappedStock rt insights) ds) = Rejected \<longleftrightarrow>
   (\<exists>s\<in>set ds. \<exists>i\<in>set insights. verify i s = Rejected)"
proof -
  have "Rejected \<in> set (map (mappedStock rt insights) ds) \<longleftrightarrow>
        (\<exists>s\<in>set ds. mappedStock rt insights s = Rejected)"
    by (induction ds) auto
  then show ?thesis by (simp add: Promise_all_Rejected_iff mappedStock_Rejected_iff)
qed

lemma mainHolder_cases:
  "(mainHolder s = \<lparr>HolderAcc.name = [], totalShares = 0\<rparr> \<and>
      (\<forall>h\<in>set (holders (currentState s)). totalShares h \<le> 0)) \<or>
   (\<exists>k<length (holders (currentState s)).
      mainHolder s = HolderAcc.truncate (holders (currentState s) ! k) \<and>
      0 < totalShares (holders (currentState s) ! k) \<and>
      (\<forall>j<k. totalShares (holders (currentState s) ! j) <
               totalShares (holders (currentState s) ! k)) \<and>
      (\<forall>h\<in>set (holders (currentState s)).
         totalShares h \<le> totalShares (holders (currentState s) ! k)))"
  using foldl_pick_cases [of "\<lparr>HolderAcc.name = [], totalShares = 0\<rparr>" "holders (currentState s)"]
  by (simp add: mainHolder_def str_def)

lemma mainHolder_depends_on_view:
  "foldl (\<lambda>acc holder.
              if totalShares acc < totalShares holder then HolderAcc.truncate holder
              else acc) acc hs =
   foldl (\<lambda>acc v. if totalShares acc < totalShares v then v else acc) acc
     (map HolderAcc.truncate hs)"
  by (induction hs arbitrary: acc) (simp_all add: HolderAcc.truncate_def)

lemma Array_sort_three:
  assumes "map MappedStock.positiveInsights mapped = [2, 4, 1]"
  shows "Array_sort compareFn mapped = [mapped ! 1, mapped ! 0, mapped ! 2]"
proof -
  from assms obtain a b c where abc: "mapped = [a, b, c]"
    by (auto simp: map_eq_Cons_conv)
  with assms show ?thesis
    by (simp add: Array_sort_def compareFn_def)
qed

lemma keeps_refl: "keeps st st"
  by (simp add: keeps_def)

lemma keeps_trans: "keeps st1 st2 \<Longrightarrow> keeps st2 st3 \<Longrightarrow> keeps st1 st3"
  by (auto simp: keeps_def)

lemma verifyEach_keeps:
  "\<forall>i\<in>set insights. leavesObjects i \<Longrightarrow> keeps st (snd (verifyEach insights a st))"
proof (induction insights arbitrary: st)
  case Nil
  show ?case by (simp add: keeps_refl)
next
  case (Cons i insights)
  obtain c st1 where first: "verifyAt i a st = (c, st1)"
    by (cases "verifyAt i a st")
  obtain r st2 where rest: "verifyEach insights a st1 = (r, st2)"
    by (cases "verifyEach insights a st1")
  from Cons.prems have "keeps st (snd (verifyAt i a st))"
    by (simp add: leavesObjects_def)
  with first have k1: "keeps st st1"
    by simp
  moreover from Cons.IH [of st1] Cons.prems rest have "keeps st1 st2"
    by simp
  ultimately have k2: "keeps st st2"
    by (rule keeps_trans)
  from first rest k1 k2 show ?case
    by (cases c; cases r) simp_all
qed

lemma startCallback_keeps:
  "\<forall>i\<in>set insights. leavesObjects i \<Longrightarrow> keeps st (snd (startCallback rt insights a st))"
  using verifyEach_keeps [of insights st a]
  by (auto simp: startCallback_def keeps_refl split: option.splits object.splits prod.splits)

lemma startAll_keeps:
  "\<forall>i\<in>set insights. leavesObjects i \<Longrightarrow> keeps st (snd (startAll rt insights refs st))"
proof (induction refs arbitrary: st)
  case Nil
  show ?case by (simp add: keeps_refl)
next
  case (Cons a refs)
  obtain c st1 where first: "startCallback rt insights a st = (c, st1)"
    by (cases "startCallback rt insights a st")
  obtain cs st2 where rest: "startAll rt insights refs st1 = (cs, st2)"
    by (cases "startAll rt insights refs st1")
  from startCallback_keeps [OF Cons.prems, of st rt a] first have "keeps st st1"
    by simp
  moreover from Cons.IH [OF Cons.prems, of st1] rest have "keeps st1 st2"
    by simp
  ultimately have "keeps st st2"
    by (rule keeps_trans)
  with first rest show ?case by simp
qed

lemma alloc_sortAt_keeps:
  "alloc ob st = (a, st') \<Longrightarrow> keeps st (sortAt a st')"
  by (auto simp: alloc_def sortAt_def keeps_def split: option.splits object.splits)

lemma leavesObjects_storedInsight: "leavesObjects (storedInsight i)"
  by (simp add: leavesObjects_def storedInsight_def keeps_refl)

lemma verifyEach_storedInsight:
  "objects st a = Some (StockObject s) \<Longrightarrow>
     verifyEach (map storedInsight insights) a st = (Some (map (\<lambda>i. verify i s) insights), st)"
  by (induction insights) (simp_all add: storedInsight_def)

lemma resume_start_storedInsight:
  assumes "objects st a = Some (StockObject s)"
  shows "startCallback rt (map storedInsight insights) a st =
           (Some \<lparr>stockVar = a, mainHolderVar = mainHolder s,
                  totalVar = totalDividendsLast5Years rt s,
                  awaited = map (\<lambda>i. verify i s) insights\<rparr>, st)"
    and "resumeCallback rt (map storedInsight insights) st
           (Some \<lparr>stockVar = a, mainHolderVar = mainHolder s,
                  totalVar = totalDividendsLast5Years rt s,
                  awaited = map (\<lambda>i. verify i s) insights\<rparr>) =
         mappedStock rt insights s"
  using assms
  by (simp_all add: startCallback_def resumeCallback_def verifyEach_storedInsight
      mappedStock_def positiveInsights_def verdicts_def insightsScore_def
      split: promise.splits)

lemma startAll_storedInsight:
  assumes "map (objects st) refs = map (\<lambda>s. Some (StockObject s)) ss"
  shows "snd (startAll rt (map storedInsight insights) refs st) = st \<and>
         map (resumeCallback rt (map storedInsight insights) st)
           (fst (startAll rt (map storedInsight insights) refs st)) =
         map (mappedStock rt insights) ss"
  using assms
proof (induction refs arbitrary: ss)
  case Nil
  then show ?case by simp
next
  case (Cons a refs)
  then obtain s ss' where ss: "ss = s # ss'" and a: "objects st a = Some (StockObject s)"
    and rest: "map (objects st) refs = map (\<lambda>s. Some (StockObject s)) ss'"
    by (cases ss) auto
  obtain cs st' where started: "startAll rt (map storedInsight insights) refs st = (cs, st')"
    by (cases "startAll rt (map storedInsight insights) refs st")
  with Cons.IH [OF rest] have "st' = st"
    and "map (resumeCallback rt (map storedInsight insights) st) cs =
         map (mappedStock rt insights) ss'"
    by simp_all
  with a ss started show ?case
    by (simp add: resume_start_storedInsight)
qed

text \<open>
  With insights that are functions of the stock, the pass on the store is the pass on
  values: it is rejected when that one is, and otherwise adds one array, the sorted rows
  of that one, and changes nothing else.
\<close>

lemma useEffectAt_storedInsight:
  assumes "objects st (dataRef app) = Some (StockArray refs)"
    and "map (objects st) refs = map (\<lambda>s. Some (StockObject s)) ss"
  shows "useEffectAt rt (map storedInsight insights) app st =
     (case Promise_all (map (mappedStock rt insights) ss) of
        Rejected \<Rightarrow> (app, st)
      | Fulfilled rows \<Rightarrow>
          (app\<lparr>mappedDataRef := nextAddr st\<rparr>,
           st\<lparr>objects := (objects st)
                 (nextAddr st \<mapsto> MappedStockArray (Array_sort compareFn rows)),
              nextAddr := Suc (nextAddr st)\<rparr>))"
proof -
  obtain cs st' where started: "startAll rt (map storedInsight insights) refs st = (cs, st')"
    by (cases "startAll rt (map storedInsight insights) refs st")
  with startAll_storedInsight [OF assms(2), of rt insights] have "st' = st"
    and "map (resumeCallback rt (map storedInsight insights) st) cs =
         map (mappedStock rt insights) ss"
    by simp_all
  with assms(1) started show ?thesis
    by (simp add: useEffectAt_def alloc_def sortAt_def split: promise.splits)
qed

text \<open>
  An insight that writes does not leave the objects, and after a pass with it the stock
  is another one: the store tells a pass that writes to its input from one that does not.
\<close>

lemma writing_insight_changes_stock:
  "\<not> leavesObjects (overwriting (stockOf ''VALE3'' 0 [] [])) \<and>
   objects (snd (useEffectAt stubRuntime [overwriting (stockOf ''VALE3'' 0 [] [])]
      exampleStoredApp exampleStore)) 1 = Some (StockObject (stockOf ''VALE3'' 0 [] [])) \<and>
   objects exampleStore 1 = Some (StockObject (stockOf ''VALE3'' 70 [] []))"
proof -
  have "\<not> keeps exampleStore
      (snd (verifyAt (overwriting (stockOf ''VALE3'' 0 [] [])) 1 exampleStore))"
    by (simp add: keeps_def overwriting_def exampleStore_def stockOf_def)
  then have "\<not> leavesObjects (overwriting (stockOf ''VALE3'' 0 [] []))"
    unfolding leavesObjects_def by blast
  moreover have "objects (snd (useEffectAt stubRuntime [overwriting (stockOf ''VALE3'' 0 [] [])]
      exampleStoredApp exampleStore)) 1 = Some (StockObject (stockOf ''VALE3'' 0 [] []))"
    by (simp add: useEffectAt_def startCallback_def resumeCallback_def alloc_def sortAt_def
        overwriting_def exampleStore_def exampleStoredApp_def split: promise.splits)
  moreover have "objects exampleStore 1 = Some (StockObject (stockOf ''VALE3'' 70 [] []))"
    by (simp add: exampleStore_def)
  ultimately show ?thesis by blast
qed

lemmas fixture_defs = stubRuntime_def holderOf_def eventOf_def stockOf_def priceAbove_def
  failing_def str_def

lemmas pass_defs = mappedStock_def positiveInsights_def verdicts_def insightsScore_def
  mainHolder_def totalDividendsLast5Years_def removeSpecial_def isSpecial_def
  isWordChar_def isWhiteSpace_def numberToString_def HolderAcc.truncate_def

section \<open>Failures in the batch\<close>

text \<open>
  C1, as amended. The pass has no handler for a rejection: it yields a result set, one
  row per stock, exactly when every insight returns a verdict for every stock of the
  batch, and then the sorted rows are stored; when any insight fails for any stock the
  whole pass is rejected, no row is produced and the component keeps the state it had.
\<close>

theorem pass_all_or_nothing:
  "(if \<forall>s\<in>set (data app). \<forall>i\<in>set insights. verify i s \<noteq> Rejected
    then \<exists>mapped. Promise_all (map (mappedStock rt insights) (data app)) = Fulfilled mapped \<and>
           length mapped = length (data app) \<and>
           useEffect rt insights app = app\<lparr>mappedData := Array_sort compareFn mapped\<rparr>
    else Promise_all (map (mappedStock rt insights) (data app)) = Rejected \<and>
         useEffect rt insights app = app)"
proof (cases "Promise_all (map (mappedStock rt insights) (data app))")
  case Rejected
  then have "\<exists>s\<in>set (data app). \<exists>i\<in>set insights. verify i s = Rejected"
    by (simp add: mapped_pass_Rejected_iff)
  with Rejected show ?thesis by (auto simp: useEffect_def)
next
  case (Fulfilled mapped)
  then have "\<not> (\<exists>s\<in>set (data app). \<exists>i\<in>set insights. verify i s = Rejected)"
    using mapped_pass_Rejected_iff [of rt insights "data app"] by simp
  moreover have "length mapped = length (data app)"
    using Fulfilled by (auto simp: Promise_all_Fulfilled_iff dest: map_eq_imp_length_eq)
  ultimately show ?thesis using Fulfilled by (auto simp: useEffect_def)
qed

text \<open>
  C1 as stated fails: with one failing insight in the registry the pass over two stocks
  is rejected as a whole, and the rows of the page stay empty.
\<close>

theorem pass_rejected_counterexample:
  "Promise_all (map (mappedStock stubRuntime [priceAbove 0, failing])
     [stockOf ''ITUB4'' 30 [] [], stockOf ''VALE3'' 70 [] []]) = Rejected \<and>
   mappedData (useEffect stubRuntime [priceAbove 0, failing]
     (initialApp [stockOf ''ITUB4'' 30 [] [], stockOf ''VALE3'' 70 [] []])) = []"
  by (simp add: useEffect_def initialApp_def fixture_defs pass_defs)

text \<open>A batch in which every evaluation succeeds.\<close>

theorem pass_all_or_nothing_witness:
  "\<exists>mapped.
     Promise_all (map (mappedStock stubRuntime [priceAbove 0, priceAbove 50])
       (data (initialApp [stockOf ''ITUB4'' 30 [] [], stockOf ''VALE3'' 70 [] []]))) =
       Fulfilled mapped \<and>
     length mapped = length (data (initialApp [stockOf ''ITUB4'' 30 [] [], stockOf ''VALE3'' 70 [] []])) \<and>
     useEffect stubRuntime [priceAbove 0, priceAbove 50]
       (initialApp [stockOf ''ITUB4'' 30 [] [], stockOf ''VALE3'' 70 [] []]) =
     (initialApp [stockOf ''ITUB4'' 30 [] [], stockOf ''VALE3'' 70 [] []])
       \<lparr>mappedData := Array_sort compareFn mapped\<rparr>"
  using pass_all_or_nothing [of "initialApp [stockOf ''ITUB4'' 30 [] [], stockOf ''VALE3'' 70 [] []]"
      "[priceAbove 0, priceAbove 50]" stubRuntime]
  by (simp add: initialApp_def priceAbove_def)

section \<open>Derived fields\<close>

text \<open>
  C2. The total of a stock is the sum of \<open>amount\<close> over all of its events, added from 0
  in the order of the events with the addition of the runtime: it is the fold of that
  addition over the amounts of every event, it is 0 without events, one more event adds
  its amount whatever its date and type, and the total is the same whatever the dates
  and the types of the events are changed to. The row of an evaluated stock shows
  \<^verbatim>\<open>toFixed(4)\<close> of it. Where every addition on the way is exact, the total is the sum
  of the amounts in the reals.
\<close>

theorem totalDividends_sums_all_events:
  "totalDividendsLast5Years rt s =
     foldl (add rt) (Finite 0) (map (\<lambda>e. Finite (amount e)) (events s)) \<and>
   totalDividendsLast5Years rt (s\<lparr>events := []\<rparr>) = Finite 0 \<and>
   totalDividendsLast5Years rt (s\<lparr>events := events s @ [e]\<rparr>) =
     add rt (totalDividendsLast5Years rt s) (Finite (amount e)) \<and>
   totalDividendsLast5Years rt
     (s\<lparr>events := map (\<lambda>e. e\<lparr>date := d e, type := t e\<rparr>) (events s)\<rparr>) =
     totalDividendsLast5Years rt s \<and>
   (\<forall>m. mappedStock rt insights s = Fulfilled m \<longrightarrow>
      MappedStock.totalDividendsLast5Years m = toFixed4 rt (totalDividendsLast5Years rt s)) \<and>
   ((\<forall>k<length (events s).
       add rt (Finite (sum_list (map amount (take k (events s)))))
         (Finite (amount (events s ! k))) =
       Finite (sum_list (map amount (take (Suc k) (events s))))) \<longrightarrow>
    totalDividendsLast5Years rt s = Finite (sum_list (map amount (events s))))"
proof (intro conjI allI impI)
  show "totalDividendsLast5Years rt s =
     foldl (add rt) (Finite 0) (map (\<lambda>e. Finite (amount e)) (events s))"
    by (simp add: totalDividendsLast5Years_def foldl_add_amounts)
  show "totalDividendsLast5Years rt (s\<lparr>events := []\<rparr>) = Finite 0"
    by (simp add: totalDividendsLast5Years_def)
  show "totalDividendsLast5Years rt (s\<lparr>events := events s @ [e]\<rparr>) =
     add rt (totalDividendsLast5Years rt s) (Finite (amount e))"
    by (simp add: totalDividendsLast5Years_def)
  show "totalDividendsLast5Years rt
     (s\<lparr>events := map (\<lambda>e. e\<lparr>date := d e, type := t e\<rparr>) (events s)\<rparr>) =
     totalDividendsLast5Years rt s"
    by (simp add: totalDividendsLast5Years_def foldl_add_amounts comp_def)
next
  fix m
  assume "mappedStock rt insights s = Fulfilled m"
  then show "MappedStock.totalDividendsLast5Years m =
      toFixed4 rt (totalDividendsLast5Years rt s)"
    by (auto elim!: mappedStock_FulfilledD)
next
  assume "\<forall>k<length (events s).
       add rt (Finite (sum_list (map amount (take k (events s)))))
         (Finite (amount (events s ! k))) =
       Finite (sum_list (map amount (take (Suc k) (events s))))"
  then show "totalDividendsLast5Years rt s = Finite (sum_list (map amount (events s)))"
    unfolding totalDividendsLast5Years_def by (rule foldl_add_exact)
qed

text \<open>
  Three events, one of them dated 2010 and one that is not a dividend: all three are
  summed.
\<close>

theorem totalDividends_sums_all_events_witness:
  "totalDividendsLast5Years stubRuntime
     (stockOf ''ITUB4'' 30 []
        [eventOf 1262304000000 3 ''dividend'', eventOf 1672531200000 4 ''dividend'',
         eventOf 1672531200000 5 ''split'']) = Finite 12 \<and>
   (\<exists>m. mappedStock stubRuntime [priceAbove 0]
          (stockOf ''ITUB4'' 30 []
             [eventOf 1262304000000 3 ''dividend'', eventOf 1672531200000 4 ''dividend'',
              eventOf 1672531200000 5 ''split'']) = Fulfilled m \<and>
        MappedStock.totalDividendsLast5Years m = toFixed4 stubRuntime (Finite 12))"
proof -
  let ?s = "stockOf ''ITUB4'' 30 []
        [eventOf 1262304000000 3 ''dividend'', eventOf 1672531200000 4 ''dividend'',
         eventOf 1672531200000 5 ''split'']"
  note inst = totalDividends_sums_all_events
    [where s = ?s and rt = stubRuntime and insights = "[priceAbove 0]"]
  have exact: "\<forall>k<length (events ?s).
       add stubRuntime (Finite (sum_list (map amount (take k (events ?s)))))
         (Finite (amount (events ?s ! k))) =
       Finite (sum_list (map amount (take (Suc k) (events ?s))))"
    by (simp add: stockOf_def eventOf_def stubRuntime_def All_less_Suc)
  have sum: "sum_list (map amount (events ?s)) = 12"
    by (simp add: stockOf_def eventOf_def)
  obtain m where m: "mappedStock stubRuntime [priceAbove 0] ?s = Fulfilled m"
    by (simp add: mappedStock_def positiveInsights_def verdicts_def priceAbove_def)
  from inst exact have "totalDividendsLast5Years stubRuntime ?s =
      Finite (sum_list (map amount (events ?s)))"
    by blast
  with sum have total: "totalDividendsLast5Years stubRuntime ?s = Finite 12"
    by simp
  from inst m have "MappedStock.totalDividendsLast5Years m =
      toFixed4 stubRuntime (totalDividendsLast5Years stubRuntime ?s)"
    by blast
  with total m show ?thesis by auto
qed

text \<open>
  C3, as amended. When some holder of the stock has \<open>totalShares\<close> above 0, the main
  holder is the holder at the first position that attains the maximum of \<open>totalShares\<close>:
  no holder has more, and every earlier holder has strictly less. For the holders A with
  40, B with 60 and C with 60 it is B.
\<close>

theorem mainHolder_first_maximum:
  "((\<exists>h\<in>set (holders (currentState s)). 0 < totalShares h) \<longrightarrow>
      (\<exists>k<length (holders (currentState s)).
         mainHolder s = HolderAcc.truncate (holders (currentState s) ! k) \<and>
         (\<forall>h\<in>set (holders (currentState s)).
            totalShares h \<le> totalShares (holders (currentState s) ! k)) \<and>
         (\<forall>j<k. totalShares (holders (currentState s) ! j) <
                  totalShares (holders (currentState s) ! k)))) \<and>
   (map HolderAcc.truncate (holders (currentState s)) =
      [\<lparr>HolderAcc.name = str ''A'', totalShares = 40\<rparr>,
       \<lparr>HolderAcc.name = str ''B'', totalShares = 60\<rparr>,
       \<lparr>HolderAcc.name = str ''C'', totalShares = 60\<rparr>] \<longrightarrow>
     mainHolder s = \<lparr>HolderAcc.name = str ''B'', totalShares = 60\<rparr>)"
proof (intro conjI impI)
  assume "\<exists>h\<in>set (holders (currentState s)). 0 < totalShares h"
  then have "\<not> (\<forall>h\<in>set (holders (currentState s)). totalShares h \<le> 0)"
    by (auto simp: not_le)
  with mainHolder_cases [of s]
  show "\<exists>k<length (holders (currentState s)).
         mainHolder s = HolderAcc.truncate (holders (currentState s) ! k) \<and>
         (\<forall>h\<in>set (holders (currentState s)).
            totalShares h \<le> totalShares (holders (currentState s) ! k)) \<and>
         (\<forall>j<k. totalShares (holders (currentState s) ! j) <
                  totalShares (holders (currentState s) ! k))"
    by blast
next
  assume "map HolderAcc.truncate (holders (currentState s)) =
      [\<lparr>HolderAcc.name = str ''A'', totalShares = 40\<rparr>,
       \<lparr>HolderAcc.name = str ''B'', totalShares = 60\<rparr>,
       \<lparr>HolderAcc.name = str ''C'', totalShares = 60\<rparr>]"
  then show "mainHolder s = \<lparr>HolderAcc.name = str ''B'', totalShares = 60\<rparr>"
    by (simp add: mainHolder_def mainHolder_depends_on_view)
qed

text \<open>
  C3 as stated fails: the holder list of this stock is not empty, its only holder A has
  \<open>totalShares\<close> 0, and the main holder is the initial accumulator, not A.
\<close>

theorem mainHolder_sentinel_counterexample:
  "map HolderAcc.truncate (holders (currentState (stockOf ''ITUB4'' 30 [holderOf ''A'' 0] []))) =
     [\<lparr>HolderAcc.name = str ''A'', totalShares = 0\<rparr>] \<and>
   mainHolder (stockOf ''ITUB4'' 30 [holderOf ''A'' 0] []) =
     \<lparr>HolderAcc.name = str '''', totalShares = 0\<rparr>"
  by (simp add: fixture_defs pass_defs)

text \<open>The holders A, B and C of the example.\<close>

theorem mainHolder_first_maximum_witness:
  "(\<exists>h\<in>set (holders (currentState
        (stockOf ''ITUB4'' 30 [holderOf ''A'' 40, holderOf ''B'' 60, holderOf ''C'' 60] []))).
      0 < totalShares h) \<and>
   mainHolder (stockOf ''ITUB4'' 30 [holderOf ''A'' 40, holderOf ''B'' 60, holderOf ''C'' 60] []) =
     \<lparr>HolderAcc.name = str ''B'', totalShares = 60\<rparr> \<and>
   (\<exists>k<length (holders (currentState
        (stockOf ''ITUB4'' 30 [holderOf ''A'' 40, holderOf ''B'' 60, holderOf ''C'' 60] []))).
      mainHolder (stockOf ''ITUB4'' 30 [holderOf ''A'' 40, holderOf ''B'' 60, holderOf ''C'' 60] []) =
        HolderAcc.truncate (holders (currentState
          (stockOf ''ITUB4'' 30 [holderOf ''A'' 40, holderOf ''B'' 60, holderOf ''C'' 60] [])) ! k))"
proof -
  let ?hs = "[holderOf ''A'' 40, holderOf ''B'' 60, holderOf ''C'' 60]"
  let ?s = "stockOf ''ITUB4'' 30 ?hs []"
  note inst = mainHolder_first_maximum [of ?s]
  have pos: "\<exists>h\<in>set (holders (currentState ?s)). 0 < totalShares h"
    by (simp add: stockOf_def holderOf_def)
  have view: "map HolderAcc.truncate (holders (currentState ?s)) =
      [\<lparr>HolderAcc.name = str ''A'', totalShares = 40\<rparr>,
       \<lparr>HolderAcc.name = str ''B'', totalShares = 60\<rparr>,
       \<lparr>HolderAcc.name = str ''C'', totalShares = 60\<rparr>]"
    by (simp add: stockOf_def holderOf_def HolderAcc.truncate_def)
  from inst view have "mainHolder ?s = \<lparr>HolderAcc.name = str ''B'', totalShares = 60\<rparr>"
    by blast
  moreover from inst pos
  have "\<exists>k<length (holders (currentState ?s)).
          mainHolder ?s = HolderAcc.truncate (holders (currentState ?s) ! k)"
    by blast
  ultimately show ?thesis using pos by blast
qed

section \<open>Ranking\<close>

text \<open>
  C4. When the pass succeeds, its rows are those of the stocks in input order, and the
  stored collection is these rows sorted by \<open>positiveInsights\<close>, largest first: it is a
  permutation of the rows, and for every value of \<open>positiveInsights\<close> the rows with that
  value stand in the order they had (the sort is stable). Rows with 2, 4 and 1 positive
  insights come out as the one with 4, then 2, then 1.
\<close>

theorem ranking_sorted_stable:
  "Promise_all (map (mappedStock rt insights) (data app)) = Fulfilled mapped \<Longrightarrow>
     length mapped = length (data app) \<and>
     (\<forall>k<length (data app). mappedStock rt insights (data app ! k) = Fulfilled (mapped ! k)) \<and>
     mappedData (useEffect rt insights app) = Array_sort compareFn mapped \<and>
     sorted_wrt (\<lambda>a b. MappedStock.positiveInsights b \<le> MappedStock.positiveInsights a)
       (mappedData (useEffect rt insights app)) \<and>
     mset (mappedData (useEffect rt insights app)) = mset mapped \<and>
     (\<forall>n. filter (\<lambda>m. MappedStock.positiveInsights m = n) (mappedData (useEffect rt insights app)) =
          filter (\<lambda>m. MappedStock.positiveInsights m = n) mapped) \<and>
     (map MappedStock.positiveInsights mapped = [2, 4, 1] \<longrightarrow>
        mappedData (useEffect rt insights app) = [mapped ! 1, mapped ! 0, mapped ! 2])"
proof -
  assume pass: "Promise_all (map (mappedStock rt insights) (data app)) = Fulfilled mapped"
  then have eq: "map (mappedStock rt insights) (data app) = map Fulfilled mapped"
    by (simp add: Promise_all_Fulfilled_iff)
  then have len: "length mapped = length (data app)"
    by (auto dest: map_eq_imp_length_eq)
  have nth: "mappedStock rt insights (data app ! k) = Fulfilled (mapped ! k)"
    if "k < length (data app)" for k
  proof -
    have "map (mappedStock rt insights) (data app) ! k = map Fulfilled mapped ! k"
      using eq by simp
    with that len show ?thesis by simp
  qed
  have out: "mappedData (useEffect rt insights app) = Array_sort compareFn mapped"
    using pass by (simp add: useEffect_def)
  show ?thesis
    unfolding out
    using len nth sorted_Array_sort [of mapped] mset_Array_sort [of mapped]
      stable_Array_sort [of _ mapped] Array_sort_three [of mapped]
    by simp
qed

text \<open>
  Three stocks with 2, 4 and 1 positive insights out of 4; and four stocks with 2, 4, 2
  and 1, where the two stocks with 2 keep their input order.
\<close>

theorem ranking_sorted_stable_witness:
  "map MappedStock.name
     (mappedData (useEffect stubRuntime [priceAbove 0, priceAbove 10, priceAbove 20, priceAbove 30]
        (initialApp [stockOf ''ITUB4'' 15 [] [], stockOf ''VALE3'' 35 [] [],
                     stockOf ''PETR4'' 5 [] []]))) =
     [str ''VALE3'', str ''ITUB4'', str ''PETR4''] \<and>
   map MappedStock.positiveInsights
     (mappedData (useEffect stubRuntime [priceAbove 0, priceAbove 10, priceAbove 20, priceAbove 30]
        (initialApp [stockOf ''ITUB4'' 15 [] [], stockOf ''VALE3'' 35 [] [],
                     stockOf ''PETR4'' 5 [] []]))) = [4, 2, 1] \<and>
   map MappedStock.name
     (mappedData (useEffect stubRuntime [priceAbove 0, priceAbove 10, priceAbove 20, priceAbove 30]
        (initialApp [stockOf ''ITUB4'' 15 [] [], stockOf ''VALE3'' 35 [] [],
                     stockOf ''ABEV3'' 16 [] [], stockOf ''PETR4'' 5 [] []]))) =
     [str ''VALE3'', str ''ITUB4'', str ''ABEV3'', str ''PETR4'']"
proof -
  let ?R = "[priceAbove 0, priceAbove 10, priceAbove 20, priceAbove 30]"
  let ?app = "initialApp [stockOf ''ITUB4'' 15 [] [], stockOf ''VALE3'' 35 [] [],
                     stockOf ''PETR4'' 5 [] []]"
  let ?ties = "initialApp [stockOf ''ITUB4'' 15 [] [], stockOf ''VALE3'' 35 [] [],
                     stockOf ''ABEV3'' 16 [] [], stockOf ''PETR4'' 5 [] []]"
  obtain a b c where pass: "Promise_all (map (mappedStock stubRuntime ?R) (data ?app)) =
      Fulfilled [a, b, c]"
    and a: "MappedStock.name a = str ''ITUB4''" "MappedStock.positiveInsights a = 2"
    and b: "MappedStock.name b = str ''VALE3''" "MappedStock.positiveInsights b = 4"
    and c: "MappedStock.name c = str ''PETR4''" "MappedStock.positiveInsights c = 1"
    by (simp add: initialApp_def fixture_defs pass_defs)
  from ranking_sorted_stable [OF pass]
  have "map MappedStock.positiveInsights [a, b, c] = [2, 4, 1] \<longrightarrow>
        mappedData (useEffect stubRuntime ?R ?app) = [[a, b, c] ! 1, [a, b, c] ! 0, [a, b, c] ! 2]"
    by (elim conjE)
  with a b c have three: "mappedData (useEffect stubRuntime ?R ?app) = [b, a, c]"
    by simp
  have ties: "map MappedStock.name (mappedData (useEffect stubRuntime ?R ?ties)) =
      [str ''VALE3'', str ''ITUB4'', str ''ABEV3'', str ''PETR4'']"
    by (simp add: useEffect_def Array_sort_def compareFn_def initialApp_def fixture_defs pass_defs)
  from three ties a b c show ?thesis by simp
qed

section \<open>The verdicts of one stock\<close>

text \<open>
  C5, as amended. When every insight of the registry returns a verdict for the stock,
  the evaluation yields exactly one verdict per insight, the \<open>k\<close>-th being the one of
  the \<open>k\<close>-th insight; when an insight fails it yields no verdicts at all.
\<close>

theorem verdicts_registry_order:
  "(if \<forall>i\<in>set insights. verify i s \<noteq> Rejected
    then \<exists>vs. verdicts insights s = Fulfilled vs \<and> length vs = length insights \<and>
           (\<forall>k<length insights. verify (insights ! k) s = Fulfilled (vs ! k))
    else verdicts insights s = Rejected)"
proof (cases "verdicts insights s")
  case Rejected
  then show ?thesis by (auto simp: verdicts_Rejected_iff)
next
  case (Fulfilled vs)
  then have eq: "map (\<lambda>i. verify i s) insights = map Fulfilled vs"
    by (simp add: verdicts_Fulfilled_iff)
  then have len: "length vs = length insights"
    by (auto dest: map_eq_imp_length_eq)
  have "verify (insights ! k) s = Fulfilled (vs ! k)" if "k < length insights" for k
  proof -
    have "map (\<lambda>i. verify i s) insights ! k = map Fulfilled vs ! k"
      using eq by simp
    with that len show ?thesis by simp
  qed
  moreover have "\<forall>i\<in>set insights. verify i s \<noteq> Rejected"
    using Fulfilled verdicts_Rejected_iff [of insights s] by auto
  ultimately show ?thesis using Fulfilled len by auto
qed

text \<open>C5 as stated fails: a registry of three insights, one of them failing, yields no verdict.\<close>

theorem verdicts_rejected_counterexample:
  "verdicts [priceAbove 0, failing, priceAbove 50] (stockOf ''ITUB4'' 30 [] []) = Rejected"
  by (simp add: verdicts_def fixture_defs)

text \<open>A registry of three insights that all answer.\<close>

theorem verdicts_registry_order_witness:
  "verdicts [priceAbove 0, priceAbove 50, priceAbove 20] (stockOf ''ITUB4'' 30 [] []) =
     Fulfilled [True, False, True] \<and>
   (\<exists>vs. verdicts [priceAbove 0, priceAbove 50, priceAbove 20] (stockOf ''ITUB4'' 30 [] []) =
       Fulfilled vs \<and>
     length vs = length [priceAbove 0, priceAbove 50, priceAbove 20] \<and>
     (\<forall>k<length [priceAbove 0, priceAbove 50, priceAbove 20].
        verify ([priceAbove 0, priceAbove 50, priceAbove 20] ! k) (stockOf ''ITUB4'' 30 [] []) =
        Fulfilled (vs ! k)))"
proof
  show "verdicts [priceAbove 0, priceAbove 50, priceAbove 20] (stockOf ''ITUB4'' 30 [] []) =
     Fulfilled [True, False, True]"
    by (simp add: verdicts_def fixture_defs)
  show "\<exists>vs. verdicts [priceAbove 0, priceAbove 50, priceAbove 20] (stockOf ''ITUB4'' 30 [] []) =
       Fulfilled vs \<and>
     length vs = length [priceAbove 0, priceAbove 50, priceAbove 20] \<and>
     (\<forall>k<length [priceAbove 0, priceAbove 50, priceAbove 20].
        verify ([priceAbove 0, priceAbove 50, priceAbove 20] ! k) (stockOf ''ITUB4'' 30 [] []) =
        Fulfilled (vs ! k))"
    using verdicts_registry_order [of "[priceAbove 0, priceAbove 50, priceAbove 20]"
        "stockOf ''ITUB4'' 30 [] []"]
    by (simp add: priceAbove_def)
qed

section \<open>The score of a row\<close>

text \<open>
  C6. In the row of every evaluated stock, the number of positive insights is at most
  the number of insights in the registry.
\<close>

theorem positiveInsights_le_total:
  "mappedStock rt insights s = Fulfilled m \<Longrightarrow>
     MappedStock.positiveInsights m \<le> length insights"
proof -
  assume "mappedStock rt insights s = Fulfilled m"
  then obtain vs where vs: "verdicts insights s = Fulfilled vs"
    and m: "MappedStock.positiveInsights m = length (filter (\<lambda>res. res) vs)"
    by (auto elim!: mappedStock_FulfilledD)
  from vs have "length vs = length insights"
    by (auto simp: verdicts_Fulfilled_iff dest: map_eq_imp_length_eq)
  moreover have "length (filter (\<lambda>res. res) vs) \<le> length vs"
    by (rule length_filter_le)
  ultimately show ?thesis using m by simp
qed

text \<open>A stock with two positive insights out of three.\<close>

theorem positiveInsights_le_total_witness:
  "\<exists>m. mappedStock stubRuntime [priceAbove 0, priceAbove 50, priceAbove 20]
         (stockOf ''ITUB4'' 30 [] []) = Fulfilled m \<and>
       MappedStock.positiveInsights m = 2 \<and>
       MappedStock.positiveInsights m \<le> length [priceAbove 0, priceAbove 50, priceAbove 20]"
proof -
  obtain m where m: "mappedStock stubRuntime [priceAbove 0, priceAbove 50, priceAbove 20]
         (stockOf ''ITUB4'' 30 [] []) = Fulfilled m" and p: "MappedStock.positiveInsights m = 2"
    by (simp add: fixture_defs pass_defs)
  from positiveInsights_le_total [OF m] m p show ?thesis by blast
qed

text \<open>
  C7. In the row of every evaluated stock, \<open>insightsScore\<close> is the decimal numeral of
  the number of \<open>True\<close> verdicts, a slash, and the decimal numeral of the size of the
  registry; \<open>positiveInsights\<close> is that number of \<open>True\<close> verdicts.
\<close>

theorem insightsScore_format:
  "mappedStock rt insights s = Fulfilled m \<Longrightarrow>
     \<exists>vs. verdicts insights s = Fulfilled vs \<and>
       MappedStock.positiveInsights m = count_list vs True \<and>
       MappedStock.insightsScore m =
         showNat (count_list vs True) @ str ''/'' @ showNat (length insights)"
proof -
  have count: "count_list vs True = length (filter (\<lambda>res. res) vs)" for vs
    by (induction vs) auto
  assume "mappedStock rt insights s = Fulfilled m"
  then obtain vs where "verdicts insights s = Fulfilled vs"
    and "MappedStock.positiveInsights m = length (filter (\<lambda>res. res) vs)"
    and "MappedStock.insightsScore m = insightsScore insights (length (filter (\<lambda>res. res) vs))"
    by (auto elim!: mappedStock_FulfilledD)
  then show ?thesis by (auto simp: count insightsScore_def)
qed

text \<open>Two positive insights out of four: the score reads \<^verbatim>\<open>2/4\<close>.\<close>

theorem insightsScore_format_witness:
  "\<exists>m vs. mappedStock stubRuntime [priceAbove 0, priceAbove 50, priceAbove 20, priceAbove 60]
         (stockOf ''ITUB4'' 30 [] []) = Fulfilled m \<and>
       verdicts [priceAbove 0, priceAbove 50, priceAbove 20, priceAbove 60]
         (stockOf ''ITUB4'' 30 [] []) = Fulfilled vs \<and>
       MappedStock.positiveInsights m = count_list vs True \<and>
       MappedStock.insightsScore m =
         showNat (count_list vs True) @ str ''/'' @
         showNat (length [priceAbove 0, priceAbove 50, priceAbove 20, priceAbove 60]) \<and>
       MappedStock.insightsScore m = str ''2/4''"
proof -
  obtain m where m: "mappedStock stubRuntime [priceAbove 0, priceAbove 50, priceAbove 20, priceAbove 60]
         (stockOf ''ITUB4'' 30 [] []) = Fulfilled m" and p: "MappedStock.insightsScore m = str ''2/4''"
    by (simp add: fixture_defs pass_defs showNat.simps digit_def)
  from insightsScore_format [OF m] m p show ?thesis by blast
qed

section \<open>What the pass leaves unchanged\<close>

text \<open>
  C8. When every insight of the registry leaves the objects, the pass does: after it,
  every address that was handed out before holds the object it held; in particular the
  array \<open>data\<close> holds the same references and every stock in it is the same object.
  The references \<open>data\<close> and the selected stock of the component are unchanged too.
  The only object the pass itself writes is the new array of rows.
\<close>

theorem useEffectAt_leaves_inputs:
  assumes "\<forall>i\<in>set insights. leavesObjects i"
  shows "dataRef (fst (useEffectAt rt insights app st)) = dataRef app \<and>
         stockRef (fst (useEffectAt rt insights app st)) = stockRef app \<and>
         (\<forall>a<nextAddr st.
            objects (snd (useEffectAt rt insights app st)) a = objects st a) \<and>
         (objects st (dataRef app) = Some (StockArray refs) \<and> dataRef app < nextAddr st \<and>
          (\<forall>r\<in>set refs. r < nextAddr st) \<longrightarrow>
            objects (snd (useEffectAt rt insights app st)) (dataRef app) =
              Some (StockArray refs) \<and>
            (\<forall>r\<in>set refs.
               objects (snd (useEffectAt rt insights app st)) r = objects st r))"
proof -
  have "dataRef (fst (useEffectAt rt insights app st)) = dataRef app \<and>
        stockRef (fst (useEffectAt rt insights app st)) = stockRef app"
    by (simp add: useEffectAt_def split: option.splits object.splits prod.splits promise.splits)
  moreover have "keeps st (snd (useEffectAt rt insights app st))"
  proof (cases "objects st (dataRef app)")
    case None
    then show ?thesis by (simp add: useEffectAt_def keeps_refl)
  next
    case (Some ob)
    show ?thesis
    proof (cases ob)
      case (StockArray refs)
      obtain cs st1 where started: "startAll rt insights refs st = (cs, st1)"
        by (cases "startAll rt insights refs st")
      with startAll_keeps [OF assms, of st rt refs] have k1: "keeps st st1"
        by simp
      show ?thesis
      proof (cases "Promise_all (map (resumeCallback rt insights st1) cs)")
        case Rejected
        with Some StockArray started k1 show ?thesis
          by (simp add: useEffectAt_def)
      next
        case (Fulfilled rows)
        obtain a st2 where al: "alloc (MappedStockArray rows) st1 = (a, st2)"
          by (cases "alloc (MappedStockArray rows) st1")
        from al have "keeps st1 (sortAt a st2)"
          by (rule alloc_sortAt_keeps)
        with k1 have "keeps st (sortAt a st2)"
          by (rule keeps_trans)
        with Some StockArray started Fulfilled al show ?thesis
          by (simp add: useEffectAt_def)
      qed
    qed (simp_all add: Some useEffectAt_def keeps_refl)
  qed
  ultimately show ?thesis by (auto simp: keeps_def)
qed

text \<open>
  A pass over the two stocks of the example store with two insights that only read: the
  stocks and the array \<open>data\<close> are what they were, and the rows are in a new array.
\<close>

theorem useEffectAt_leaves_inputs_witness:
  "leavesObjects (storedInsight (priceAbove 0)) \<and>
   leavesObjects (storedInsight (priceAbove 50)) \<and>
   objects (snd (useEffectAt stubRuntime [storedInsight (priceAbove 0), storedInsight (priceAbove 50)]
      exampleStoredApp exampleStore)) 0 = Some (StockObject (stockOf ''ITUB4'' 30 [] [])) \<and>
   objects (snd (useEffectAt stubRuntime [storedInsight (priceAbove 0), storedInsight (priceAbove 50)]
      exampleStoredApp exampleStore)) 1 = Some (StockObject (stockOf ''VALE3'' 70 [] [])) \<and>
   objects (snd (useEffectAt stubRuntime [storedInsight (priceAbove 0), storedInsight (priceAbove 50)]
      exampleStoredApp exampleStore)) 2 = Some (StockArray [0, 1]) \<and>
   mappedDataRef (fst (useEffectAt stubRuntime
      [storedInsight (priceAbove 0), storedInsight (priceAbove 50)]
      exampleStoredApp exampleStore)) = 4"
proof -
  let ?R = "[storedInsight (priceAbove 0), storedInsight (priceAbove 50)]"
  have reads: "\<forall>i\<in>set ?R. leavesObjects i"
    by (simp add: leavesObjects_storedInsight)
  note inst = useEffectAt_leaves_inputs [OF reads, of stubRuntime exampleStoredApp exampleStore]
  have "\<forall>a<4. objects (snd (useEffectAt stubRuntime ?R exampleStoredApp exampleStore)) a =
      objects exampleStore a"
    using inst by (simp add: exampleStore_def)
  then have "objects (snd (useEffectAt stubRuntime ?R exampleStoredApp exampleStore)) 0 =
        objects exampleStore 0"
    and "objects (snd (useEffectAt stubRuntime ?R exampleStoredApp exampleStore)) 1 =
        objects exampleStore 1"
    and "objects (snd (useEffectAt stubRuntime ?R exampleStoredApp exampleStore)) 2 =
        objects exampleStore 2"
    by simp_all
  moreover have "mappedDataRef (fst (useEffectAt stubRuntime ?R exampleStoredApp exampleStore)) = 4"
    using useEffectAt_storedInsight [of exampleStore exampleStoredApp "[0, 1]"
        "[stockOf ''ITUB4'' 30 [] [], stockOf ''VALE3'' 70 [] []]" stubRuntime
        "[priceAbove 0, priceAbove 50]"]
    by (simp add: exampleStore_def exampleStoredApp_def mappedStock_def positiveInsights_def
        verdicts_def priceAbove_def stockOf_def)
  ultimately show ?thesis
    by (simp add: leavesObjects_storedInsight exampleStore_def)
qed

section \<open>The row click\<close>

text \<open>
  C9. When the name of a stock has a code unit that is neither a word character
  (\<^verbatim>\<open>[A-Za-z0-9_]\<close>) nor white space, the name of its row is the name without such
  code units and differs from the name of the stock. If moreover no stock of the input
  has the sanitized name, the lookup of the row click finds nothing and the click leaves
  the state as it is: the detail view is not opened for that row.
\<close>

theorem sanitized_name_breaks_lookup:
  assumes "\<exists>c\<in>set (Stock.name s). \<not> isWordChar c \<and> \<not> isWhiteSpace c"
    and "mappedStock rt insights s = Fulfilled row"
  shows "MappedStock.name row = removeSpecial (Stock.name s) \<and>
     MappedStock.name row \<noteq> Stock.name s \<and>
     ((\<forall>s'\<in>set (data app). Stock.name s' \<noteq> removeSpecial (Stock.name s)) \<longrightarrow>
        find (\<lambda>s'. Stock.name s' = MappedStock.name row) (data app) = None \<and>
        onRowClick app row = app)"
proof -
  from assms(2) have name: "MappedStock.name row = removeSpecial (Stock.name s)"
    by (auto elim!: mappedStock_FulfilledD)
  from assms(1) obtain c where "c \<in> set (Stock.name s)" and "\<not> \<not> isSpecial c"
    by (auto simp: isSpecial_def)
  then have "length (removeSpecial (Stock.name s)) < length (Stock.name s)"
    unfolding removeSpecial_def by (rule length_filter_less)
  then have differs: "removeSpecial (Stock.name s) \<noteq> Stock.name s"
    by auto
  have "find (\<lambda>s'. Stock.name s' = MappedStock.name row) (data app) = None \<and>
        onRowClick app row = app"
    if "\<forall>s'\<in>set (data app). Stock.name s' \<noteq> removeSpecial (Stock.name s)"
  proof -
    from that name
    have "find (\<lambda>s'. Stock.name s' = MappedStock.name row) (data app) = None"
      by (simp add: find_None_iff)
    then show ?thesis by (simp add: onRowClick_def)
  qed
  with name differs show ?thesis by simp
qed

text \<open>The row of \<^verbatim>\<open>B3 S.A.\<close> is named \<^verbatim>\<open>B3 SA\<close>; clicking it selects nothing.\<close>

theorem sanitized_name_breaks_lookup_witness:
  "(\<exists>row. mappedStock stubRuntime [priceAbove 0] (stockOf ''B3 S.A.'' 12 [] []) = Fulfilled row \<and>
      MappedStock.name row = str ''B3 SA'' \<and>
      MappedStock.name row \<noteq> Stock.name (stockOf ''B3 S.A.'' 12 [] []) \<and>
      onRowClick (initialApp [stockOf ''B3 S.A.'' 12 [] [], stockOf ''VALE3'' 70 [] []]) row =
        initialApp [stockOf ''B3 S.A.'' 12 [] [], stockOf ''VALE3'' 70 [] []])"
proof -
  let ?s = "stockOf ''B3 S.A.'' 12 [] []"
  let ?app = "initialApp [stockOf ''B3 S.A.'' 12 [] [], stockOf ''VALE3'' 70 [] []]"
  obtain row where row: "mappedStock stubRuntime [priceAbove 0] ?s = Fulfilled row"
    by (simp add: mappedStock_def positiveInsights_def verdicts_def priceAbove_def)
  have special: "\<exists>c\<in>set (Stock.name ?s). \<not> isWordChar c \<and> \<not> isWhiteSpace c"
    by (simp add: stockOf_def str_def isWordChar_def isWhiteSpace_def)
  have sanitized: "removeSpecial (Stock.name ?s) = str ''B3 SA''"
    by (simp add: stockOf_def str_def removeSpecial_def isSpecial_def isWordChar_def
        isWhiteSpace_def)
  have absent: "\<forall>s'\<in>set (data ?app). Stock.name s' \<noteq> removeSpecial (Stock.name ?s)"
    unfolding sanitized by (simp add: initialApp_def stockOf_def str_def)
  from sanitized_name_breaks_lookup [OF special row, of ?app] absent sanitized row
  show ?thesis by auto
qed

section \<open>Stocks without a positive holding\<close>

text \<open>
  C10. When the holder list is empty or every holder has \<open>totalShares\<close> at most 0, the
  main holder is the initial accumulator \<^verbatim>\<open>{ name: "", totalShares: 0 }\<close> and the row
  shows \<^verbatim>\<open>" (0%)"\<close>. For every stock, the main holder is that accumulator or a holder
  of the list whose \<open>totalShares\<close> is above 0.
\<close>

theorem mainHolder_sentinel:
  "((\<forall>h\<in>set (holders (currentState s)). totalShares h \<le> 0) \<longrightarrow>
      mainHolder s = \<lparr>HolderAcc.name = str '''', totalShares = 0\<rparr> \<and>
      (\<forall>m. mappedStock rt insights s = Fulfilled m \<longrightarrow>
         MappedStock.mainHolder m = str '' (0%)'')) \<and>
   (mainHolder s = \<lparr>HolderAcc.name = str '''', totalShares = 0\<rparr> \<or>
    (\<exists>h\<in>set (holders (currentState s)).
       mainHolder s = HolderAcc.truncate h \<and> 0 < totalShares h))"
proof (intro conjI impI allI)
  assume all: "\<forall>h\<in>set (holders (currentState s)). totalShares h \<le> 0"
  have "\<not> (\<exists>k<length (holders (currentState s)).
              0 < totalShares (holders (currentState s) ! k))"
    using all by (metis nth_mem not_less)
  with mainHolder_cases [of s]
  show sentinel: "mainHolder s = \<lparr>HolderAcc.name = str '''', totalShares = 0\<rparr>"
    by (auto simp: str_def)
  fix m
  assume "mappedStock rt insights s = Fulfilled m"
  then have "MappedStock.mainHolder m =
      HolderAcc.name (mainHolder s) @ str '' ('' @
      numberToString rt (totalShares (mainHolder s)) @ str ''%)''"
    by (auto elim!: mappedStock_FulfilledD)
  then show "MappedStock.mainHolder m = str '' (0%)''"
    by (simp add: sentinel numberToString_def showNat.simps digit_def str_def)
next
  from mainHolder_cases [of s]
  show "mainHolder s = \<lparr>HolderAcc.name = str '''', totalShares = 0\<rparr> \<or>
    (\<exists>h\<in>set (holders (currentState s)).
       mainHolder s = HolderAcc.truncate h \<and> 0 < totalShares h)"
    by (auto simp: str_def)
qed

text \<open>A stock whose holders have 0 and -5, and a stock without holders.\<close>

theorem mainHolder_sentinel_witness:
  "mainHolder (stockOf ''ITUB4'' 30 [holderOf ''A'' 0, holderOf ''B'' (- 5)] []) =
     \<lparr>HolderAcc.name = str '''', totalShares = 0\<rparr> \<and>
   (\<exists>m. mappedStock stubRuntime [priceAbove 0]
          (stockOf ''ITUB4'' 30 [holderOf ''A'' 0, holderOf ''B'' (- 5)] []) = Fulfilled m \<and>
        MappedStock.mainHolder m = str '' (0%)'') \<and>
   mainHolder (stockOf ''VALE3'' 70 [] []) = \<lparr>HolderAcc.name = str '''', totalShares = 0\<rparr>"
proof -
  let ?s = "stockOf ''ITUB4'' 30 [holderOf ''A'' 0, holderOf ''B'' (- 5)] []"
  let ?e = "stockOf ''VALE3'' 70 [] []"
  note inst = mainHolder_sentinel [of ?s stubRuntime "[priceAbove 0]"]
  note inst_empty = mainHolder_sentinel [of ?e stubRuntime "[priceAbove 0]"]
  have all: "\<forall>h\<in>set (holders (currentState ?s)). totalShares h \<le> 0"
    by (simp add: stockOf_def holderOf_def)
  have empty: "\<forall>h\<in>set (holders (currentState ?e)). totalShares h \<le> 0"
    by (simp add: stockOf_def)
  obtain m where m: "mappedStock stubRuntime [priceAbove 0] ?s = Fulfilled m"
    by (simp add: mappedStock_def positiveInsights_def verdicts_def priceAbove_def)
  from inst all m inst_empty empty show ?thesis by blast
qed

end
